theory Spec2Isabelle
  imports Main
begin

section \<open>The fixed-point search of compile-errors.py\<close>

text \<open>
  The script writes a candidate program to a file, runs a compiler on it, takes the
  compiler's captured output as the next candidate, and stops when the output equals the
  candidate. The compiler is an external process: it is a parameter of the model, a
  function from the command line and the world to a result (or a raised exception) and
  a new world. Python's \<open>str\<close> is modelled as \<open>string\<close>; a file holds the text
  written to it in text mode (encoding and newline translation are below this model).
  Whether a file can be written is for the world to say: \<open>open\<close> and \<open>print\<close> can raise.
\<close>

subsection \<open>Data\<close>

type_synonym path = string

text \<open>The object returned by \<open>subprocess.run\<close>.\<close>

record CompletedProcess =
  returncode :: int
  stdout :: string
  stderr :: string

text \<open>
  What can be raised. \<open>KeyboardInterrupt\<close> is the one that is not a subclass of
  \<open>Exception\<close>, so \<open>except Exception\<close> does not catch it.
\<close>

datatype py_exception =
    FileNotFoundError
  | PermissionError
  | OSError
  | UnicodeDecodeError
  | KeyboardInterrupt
  | UnboundLocalError string

fun is_Exception :: "py_exception \<Rightarrow> bool" where
  "is_Exception KeyboardInterrupt = False"
| "is_Exception _ = True"

text \<open>
  The world outside the script: the files, what happens when a text is written to a path,
  and everything else a process can see. \<open>write_error w p s\<close> is \<open>None\<close> when writing \<open>s\<close>
  to \<open>p\<close> succeeds; otherwise it gives the exception that \<open>open\<close> or \<open>print\<close> raises there
  and what the path holds afterwards (nothing, the old text, an empty or a partial file).
\<close>

record 'e world =
  files :: "path \<rightharpoonup> string"
  write_error :: "path \<Rightarrow> string \<Rightarrow> (py_exception \<times> string option) option"
  ext :: 'e

type_synonym 'e subprocess =
  "string list \<Rightarrow> 'e world \<Rightarrow> (py_exception + CompletedProcess) \<times> 'e world"

text \<open>One call of \<open>subprocess.run\<close>: its arguments, the world it found, what came back.\<close>

record 'e call =
  call_args :: "string list"
  call_world :: "'e world"
  call_result :: "py_exception + CompletedProcess"

text \<open>
  The state threaded through \<open>compileErrors\<close>: the world, what has been printed on the
  console, the calls of \<open>subprocess.run\<close> made so far, the module's global
  \<open>maxIterations\<close>, and the locals \<open>program\<close> and \<open>count\<close> (\<open>None\<close> while
  \<open>count\<close> is unbound).
\<close>

record 'e state =
  world :: "'e world"
  console :: string
  calls :: "'e call list"
  maxIterations :: int
  program :: string
  count :: "int option"

subsection \<open>Strings\<close>

definition newline :: string where
  "newline = [CHR 0x0A]"

text \<open>\<open>str(n)\<close> for an integer, as an f-string formats it.\<close>

fun digits :: "nat \<Rightarrow> string" where
  "digits n = (if n < 10 then [char_of (48 + n)]
               else digits (n div 10) @ [char_of (48 + n mod 10)])"

declare digits.simps [simp del]

definition str_int :: "int \<Rightarrow> string" where
  "str_int i = (if i < 0 then CHR ''-'' # digits (nat (- i)) else digits (nat i))"

text \<open>\<open>sep.join(xs)\<close>.\<close>

fun join :: "string \<Rightarrow> string list \<Rightarrow> string" where
  "join sep [] = []"
| "join sep [x] = x"
| "join sep (x # y # ys) = x @ sep @ join sep (y # ys)"

text \<open>
  \<open>str.splitlines()\<close>: the line boundaries of Python that are code points below 256
  (line feed, vertical tab, form feed, carriage return, the three separators 0x1C to 0x1E
  and next line 0x85), with carriage return followed by line feed as one boundary.
\<close>

definition is_linebreak :: "char \<Rightarrow> bool" where
  "is_linebreak c \<longleftrightarrow>
     c \<in> set [CHR 0x0A, CHR 0x0B, CHR 0x0C, CHR 0x0D, CHR 0x1C, CHR 0x1D, CHR 0x1E, CHR 0x85]"

fun splitlines_from :: "string \<Rightarrow> string \<Rightarrow> string list" where
  "splitlines_from cur [] = (if cur = [] then [] else [cur])"
| "splitlines_from cur [c] = (if is_linebreak c then [cur] else [cur @ [c]])"
| "splitlines_from cur (c # d # cs) =
     (if c = CHR 0x0D \<and> d = CHR 0x0A then cur # splitlines_from [] cs
      else if is_linebreak c then cur # splitlines_from [] (d # cs)
      else splitlines_from (cur @ [c]) (d # cs))"

definition splitlines :: "string \<Rightarrow> string list" where
  "splitlines s = splitlines_from [] s"

subsection \<open>Effects\<close>

text \<open>\<open>print(s, end=e)\<close> on the console.\<close>

definition print_console :: "string \<Rightarrow> string \<Rightarrow> 'e state \<Rightarrow> 'e state" where
  "print_console s e st = st\<lparr>console := console st @ s @ e\<rparr>"

text \<open>
  \<open>with open(p, 'w') as f: print(s, file=f)\<close>: the file is replaced by \<open>s\<close> and a newline,
  or an exception is raised, as the world has it.
\<close>

definition write_file :: "path \<Rightarrow> string \<Rightarrow> 'e state \<Rightarrow> py_exception option \<times> 'e state" where
  "write_file p s st =
     (case write_error (world st) p s of
        None \<Rightarrow>
          (None, st\<lparr>world := (world st)\<lparr>files := (files (world st))(p \<mapsto> s @ newline)\<rparr>\<rparr>)
      | Some (e, left) \<Rightarrow>
          (Some e, st\<lparr>world := (world st)\<lparr>files := (files (world st))(p := left)\<rparr>\<rparr>))"

text \<open>\<open>subprocess.run(args, capture_output=True, text=True)\<close>, with the call recorded.\<close>

definition subprocess_run ::
  "'e subprocess \<Rightarrow> string list \<Rightarrow> 'e state \<Rightarrow> (py_exception + CompletedProcess) \<times> 'e state" where
  "subprocess_run proc args st =
     (let (r, w') = proc args (world st)
      in (r, st\<lparr>world := w',
                calls := calls st @ [\<lparr>call_args = args, call_world = world st, call_result = r\<rparr>]\<rparr>))"

subsection \<open>compileErrors\<close>

text \<open>
  The \<open>for count in range(1, maxIterations+1)\<close> loop over the counts still to come, and
  the two statements after it. With no iteration at all \<open>count\<close> is still unbound when
  the last \<open>print\<close> formats it. Writing the file is outside the \<open>try\<close>: what it raises
  leaves the function, before any process is run.
\<close>

fun for_count ::
  "path \<Rightarrow> string list \<Rightarrow> bool \<Rightarrow> 'e subprocess \<Rightarrow> int list \<Rightarrow> 'e state \<Rightarrow>
   (py_exception + bool) \<times> 'e state" where
  "for_count progFile compileCommand errorsInStderr proc [] st =
     (case count st of
        None \<Rightarrow> (Inl (UnboundLocalError ''count''), st)
      | Some c \<Rightarrow>
          (Inr False,
           print_console (''did not converge after '' @ str_int c @ '' iterations'') newline st))"
| "for_count progFile compileCommand errorsInStderr proc (c # rest) st =
     (let st0 = st\<lparr>count := Some c\<rparr>
      in case write_file progFile (program st0) st0 of
           (Some e, st1) \<Rightarrow> (Inl e, st1)
         | (None, st1) \<Rightarrow>
             (let (r, st2) = subprocess_run proc compileCommand st1
              in case r of
                   Inl e \<Rightarrow>
                     if is_Exception e then
                       (Inr False,
                        print_console
                          (''Error: Unable to compile. Command: '' @ join '' '' compileCommand)
                          newline st2)
                     else (Inl e, st2)
                 | Inr result \<Rightarrow>
                     (let output = (if errorsInStderr then stderr result else stdout result)
                      in if program st2 = output then
                           (Inr True,
                            print_console
                              (progFile @ '', '' @ str_int c @ '' iterations, ''
                                 @ str_int (int (length (splitlines (program st2))))
                                 @ '' lines'')
                              newline st2)
                         else
                           for_count progFile compileCommand errorsInStderr proc rest
                             (st2\<lparr>program := output\<rparr>))))"

definition compileErrors ::
  "string \<Rightarrow> path \<Rightarrow> string list \<Rightarrow> bool \<Rightarrow> string \<Rightarrow> 'e subprocess \<Rightarrow> 'e state \<Rightarrow>
   (py_exception + bool) \<times> 'e state" where
  "compileErrors description progFile compileCommand errorsInStderr startingProgram proc st =
     (let st0 = print_console (description @ '': '') [] (st\<lparr>count := None\<rparr>);
          st1 = st0\<lparr>program := startingProgram\<rparr>
      in for_count progFile compileCommand errorsInStderr proc [1..maxIterations st1] st1)"

text \<open>The state the script starts in: line 22 has set \<open>maxIterations\<close> to 10.\<close>

definition script_state :: "'e world \<Rightarrow> 'e state" where
  "script_state w =
     \<lparr>world = w, console = [], calls = [], maxIterations = 10, program = [], count = None\<rparr>"

subsection \<open>Transformers to run the search on\<close>

text \<open>The calls made by a run that took the state from \<open>st\<close> to \<open>st'\<close>.\<close>

definition invocations :: "'e state \<Rightarrow> 'e state \<Rightarrow> 'e call list" where
  "invocations st st' = drop (length (calls st)) (calls st')"

text \<open>The stream the search reads from a completed process, and from a recorded call.\<close>

definition selected :: "bool \<Rightarrow> CompletedProcess \<Rightarrow> string" where
  "selected errorsInStderr result = (if errorsInStderr then stderr result else stdout result)"

definition call_output :: "bool \<Rightarrow> 'e call \<Rightarrow> string option" where
  "call_output errorsInStderr c =
     (case call_result c of Inl e \<Rightarrow> None | Inr result \<Rightarrow> Some (selected errorsInStderr result))"

text \<open>A process that copies the file \<open>p\<close> to its standard output, like \<open>cat p\<close>.\<close>

definition echo_file :: "path \<Rightarrow> 'e subprocess" where
  "echo_file p args w =
     (case files w p of
        Some s \<Rightarrow> (Inr \<lparr>returncode = 0, stdout = s, stderr = []\<rparr>, w)
      | None \<Rightarrow> (Inr \<lparr>returncode = 1, stdout = [], stderr = ''No such file or directory''\<rparr>, w))"

text \<open>A process that prints the same text on both streams and exits with status \<open>rc\<close>.\<close>

definition emit_constant :: "int \<Rightarrow> string \<Rightarrow> 'e subprocess" where
  "emit_constant rc s args w = (Inr \<lparr>returncode = rc, stdout = s, stderr = s\<rparr>, w)"

text \<open>A command that cannot be started: \<open>subprocess.run\<close> raises.\<close>

definition not_found :: "'e subprocess" where
  "not_found args w = (Inl FileNotFoundError, w)"

text \<open>A world with no files where every write succeeds, and one where none does.\<close>

definition empty_world :: "unit world" where
  "empty_world = \<lparr>files = Map.empty, write_error = (\<lambda>p s. None), ext = ()\<rparr>"

definition no_directory_world :: "unit world" where
  "no_directory_world =
     \<lparr>files = Map.empty, write_error = (\<lambda>p s. Some (FileNotFoundError, None)), ext = ()\<rparr>"

text \<open>
  The path can be written now, whatever the text, and running the process leaves it so.
\<close>

definition writable :: "path \<Rightarrow> 'e world \<Rightarrow> bool" where
  "writable p w \<longleftrightarrow> (\<forall>s. write_error w p s = None)"

definition stays_writable :: "path \<Rightarrow> 'e subprocess \<Rightarrow> 'e world \<Rightarrow> bool" where
  "stays_writable p proc w \<longleftrightarrow>
     writable p w \<and> (\<forall>args w'. writable p w' \<longrightarrow> writable p (snd (proc args w')))"

subsection \<open>One iteration of the loop\<close>

text \<open>
  The body of the loop, as a step: it either leaves the function (\<open>Stop\<close>, with what
  is returned or raised) or goes on to the next count (\<open>Continue\<close>).
\<close>

datatype 'e step = Stop "py_exception + bool" "'e state" | Continue "'e state"

text \<open>The world the process finds: the candidate and a newline are in the file.\<close>

definition fed_world :: "path \<Rightarrow> 'e state \<Rightarrow> 'e world" where
  "fed_world p st = (world st)\<lparr>files := (files (world st))(p \<mapsto> program st @ newline)\<rparr>"

definition this_call :: "path \<Rightarrow> string list \<Rightarrow> 'e subprocess \<Rightarrow> 'e state \<Rightarrow> 'e call" where
  "this_call p cmd proc st =
     \<lparr>call_args = cmd, call_world = fed_world p st,
      call_result = fst (proc cmd (fed_world p st))\<rparr>"

definition after_call ::
  "path \<Rightarrow> string list \<Rightarrow> 'e subprocess \<Rightarrow> int \<Rightarrow> 'e state \<Rightarrow> 'e state" where
  "after_call p cmd proc c st =
     st\<lparr>count := Some c, world := snd (proc cmd (fed_world p st)),
        calls := calls st @ [this_call p cmd proc st]\<rparr>"

definition error_line :: "string list \<Rightarrow> string" where
  "error_line cmd = ''Error: Unable to compile. Command: '' @ join '' '' cmd @ newline"

definition converged_line :: "path \<Rightarrow> int \<Rightarrow> string \<Rightarrow> string" where
  "converged_line p c s =
     p @ '', '' @ str_int c @ '' iterations, '' @ str_int (int (length (splitlines s)))
       @ '' lines'' @ newline"

definition exhausted_line :: "int \<Rightarrow> string" where
  "exhausted_line c = ''did not converge after '' @ str_int c @ '' iterations'' @ newline"

text \<open>The state a failed write leaves: \<open>count\<close> is bound, no call was made.\<close>

definition after_write_error :: "path \<Rightarrow> string option \<Rightarrow> int \<Rightarrow> 'e state \<Rightarrow> 'e state" where
  "after_write_error p left c st =
     st\<lparr>count := Some c, world := (world st)\<lparr>files := (files (world st))(p := left)\<rparr>\<rparr>"

definition iteration ::
  "path \<Rightarrow> string list \<Rightarrow> bool \<Rightarrow> 'e subprocess \<Rightarrow> int \<Rightarrow> 'e state \<Rightarrow> 'e step" where
  "iteration p cmd eis proc c st =
     (case write_error (world st) p (program st) of
        Some (e, left) \<Rightarrow> Stop (Inl e) (after_write_error p left c st)
      | None \<Rightarrow>
          (case fst (proc cmd (fed_world p st)) of
             Inl e \<Rightarrow>
               if is_Exception e then
                 Stop (Inr False) (print_console (error_line cmd) [] (after_call p cmd proc c st))
               else Stop (Inl e) (after_call p cmd proc c st)
           | Inr result \<Rightarrow>
               if program st = selected eis result then
                 Stop (Inr True)
                   (print_console (converged_line p c (program st)) []
                      (after_call p cmd proc c st))
               else Continue ((after_call p cmd proc c st)\<lparr>program := selected eis result\<rparr>)))"

text \<open>What a recorded call says about its iteration.\<close>

definition is_fixed_point :: "path \<Rightarrow> bool \<Rightarrow> 'e call \<Rightarrow> bool" where
  "is_fixed_point p eis c =
     (case call_output eis c of
        None \<Rightarrow> False
      | Some out \<Rightarrow> files (call_world c) p = Some (out @ newline))"

definition differs :: "path \<Rightarrow> bool \<Rightarrow> 'e call \<Rightarrow> bool" where
  "differs p eis c =
     (case call_output eis c of
        None \<Rightarrow> False
      | Some out \<Rightarrow> files (call_world c) p \<noteq> Some (out @ newline))"

definition failed :: "'e call \<Rightarrow> bool" where
  "failed c = (case call_result c of Inl e \<Rightarrow> is_Exception e | Inr result \<Rightarrow> False)"

text \<open>
  The calls of a run in order, each finding the candidate of its turn in the file: the
  starting candidate for the first call, the output of the call before for every other;
  a call that is followed by another one completed with an output other than its candidate.
\<close>

fun fed_in_turn :: "path \<Rightarrow> string list \<Rightarrow> bool \<Rightarrow> string \<Rightarrow> 'e call list \<Rightarrow> bool" where
  "fed_in_turn p cmd eis cand [] = True"
| "fed_in_turn p cmd eis cand (c # cs) =
     (call_args c = cmd \<and> files (call_world c) p = Some (cand @ newline) \<and>
      (cs = [] \<or>
       (case call_output eis c of
          None \<Rightarrow> False
        | Some out \<Rightarrow> out \<noteq> cand \<and> fed_in_turn p cmd eis out cs)))"

text \<open>The state on entry to the loop: the label is printed, \<open>program\<close> is bound.\<close>

definition entry :: "string \<Rightarrow> string \<Rightarrow> 'e state \<Rightarrow> 'e state" where
  "entry description startingProgram st =
     (print_console (description @ '': '') [] (st\<lparr>count := None\<rparr>))\<lparr>program := startingProgram\<rparr>"

text \<open>
  What a run shows apart from exit statuses: the two captured streams of a call (or the
  exception raised), and the state with the calls reduced to that.
\<close>

definition streams :: "py_exception + CompletedProcess \<Rightarrow> py_exception + string \<times> string" where
  "streams r = (case r of Inl e \<Rightarrow> Inl e | Inr result \<Rightarrow> Inr (stdout result, stderr result))"

definition observable ::
  "'e state \<Rightarrow> 'e world \<times> string \<times> string \<times> int option \<times> int
               \<times> (string list \<times> 'e world \<times> (py_exception + string \<times> string)) list" where
  "observable st =
     (world st, console st, program st, count st, maxIterations st,
      map (\<lambda>c. (call_args c, call_world c, streams (call_result c))) (calls st))"

text \<open>Runs of the search to evaluate.\<close>

definition python_run :: "(py_exception + bool) \<times> unit state" where
  "python_run =
     compileErrors ''Python'' ''prog.py'' [''py'', ''prog.py''] True ''x''
       (emit_constant 1 ''syntax error on line 1'') (script_state empty_world)"

definition echo_run :: "(py_exception + bool) \<times> unit state" where
  "echo_run =
     compileErrors ''Echo'' ''prog0.py'' [''cat'', ''prog0.py''] False []
       (echo_file ''prog0.py'') (script_state empty_world)"

definition missing_run :: "(py_exception + bool) \<times> unit state" where
  "missing_run =
     compileErrors ''Perl'' ''prog.pl'' [''perl'', ''prog.pl''] True ''1x''
       not_found (script_state empty_world)"

definition trailing_newline_state :: "unit state" where
  "trailing_newline_state = entry ''Python'' (''x'' @ newline) (script_state empty_world)"

section \<open>The loop, step by step\<close>

lemma for_count_Cons:
  "for_count p cmd eis proc (c # rest) st =
     (case iteration p cmd eis proc c st of
        Stop r st' \<Rightarrow> (r, st')
      | Continue st' \<Rightarrow> for_count p cmd eis proc rest st')"
  by (simp add: iteration_def after_call_def after_write_error_def this_call_def fed_world_def
        write_file_def subprocess_run_def selected_def print_console_def error_line_def
        converged_line_def Let_def split: prod.splits sum.splits option.splits)

lemma for_count_Nil:
  "for_count p cmd eis proc [] st =
     (case count st of
        None \<Rightarrow> (Inl (UnboundLocalError ''count''), st)
      | Some c \<Rightarrow> (Inr False, print_console (exhausted_line c) [] st))"
  by (simp add: exhausted_line_def print_console_def split: option.splits)

declare for_count.simps [simp del]

lemma after_call_simps:
  "calls (after_call p cmd proc c st) = calls st @ [this_call p cmd proc st]"
  "console (after_call p cmd proc c st) = console st"
  "program (after_call p cmd proc c st) = program st"
  "maxIterations (after_call p cmd proc c st) = maxIterations st"
  "count (after_call p cmd proc c st) = Some c"
  "world (after_call p cmd proc c st) = snd (proc cmd (fed_world p st))"
  by (simp_all add: after_call_def)

lemma after_write_error_simps:
  "calls (after_write_error p left c st) = calls st"
  "console (after_write_error p left c st) = console st"
  "program (after_write_error p left c st) = program st"
  "maxIterations (after_write_error p left c st) = maxIterations st"
  "count (after_write_error p left c st) = Some c"
  by (simp_all add: after_write_error_def)

lemma print_console_simps:
  "calls (print_console s e st) = calls st"
  "console (print_console s e st) = console st @ s @ e"
  "program (print_console s e st) = program st"
  "maxIterations (print_console s e st) = maxIterations st"
  "count (print_console s e st) = count st"
  "world (print_console s e st) = world st"
  by (simp_all add: print_console_def)

lemma this_call_simps:
  "call_args (this_call p cmd proc st) = cmd"
  "call_world (this_call p cmd proc st) = fed_world p st"
  "call_result (this_call p cmd proc st) = fst (proc cmd (fed_world p st))"
  "files (fed_world p st) p = Some (program st @ newline)"
  by (simp_all add: this_call_def fed_world_def)

lemma iteration_Stop:
  assumes "iteration p cmd eis proc c st = Stop r st'"
  shows "(\<exists>e left. write_error (world st) p (program st) = Some (e, left) \<and> r = Inl e
            \<and> st' = after_write_error p left c st)
       \<or> (\<exists>e. write_error (world st) p (program st) = None
            \<and> call_result (this_call p cmd proc st) = Inl e \<and> is_Exception e \<and> r = Inr False
            \<and> st' = print_console (error_line cmd) [] (after_call p cmd proc c st))
       \<or> (\<exists>e. write_error (world st) p (program st) = None
            \<and> call_result (this_call p cmd proc st) = Inl e \<and> \<not> is_Exception e \<and> r = Inl e
            \<and> st' = after_call p cmd proc c st)
       \<or> (\<exists>result. write_error (world st) p (program st) = None
            \<and> call_result (this_call p cmd proc st) = Inr result
            \<and> program st = selected eis result \<and> r = Inr True
            \<and> st' = print_console (converged_line p c (program st)) []
                      (after_call p cmd proc c st))"
  using assms
  by (auto simp: iteration_def this_call_simps split: sum.splits if_splits option.splits)

lemma iteration_Continue:
  assumes "iteration p cmd eis proc c st = Continue st1"
  shows "\<exists>result. write_error (world st) p (program st) = None
            \<and> call_result (this_call p cmd proc st) = Inr result
            \<and> program st \<noteq> selected eis result
            \<and> st1 = (after_call p cmd proc c st)\<lparr>program := selected eis result\<rparr>"
  using assms
  by (auto simp: iteration_def this_call_simps split: sum.splits if_splits option.splits)

lemma for_count_induct [consumes 1, case_names Unbound Exhausted Stop Continue]:
  assumes run: "for_count p cmd eis proc ks st = (res, st')"
    and Unbound: "\<And>st. count st = None \<Longrightarrow> P [] st (Inl (UnboundLocalError ''count'')) st"
    and Exhausted: "\<And>st c. count st = Some c \<Longrightarrow>
        P [] st (Inr False) (print_console (exhausted_line c) [] st)"
    and Stop: "\<And>c rest st r st'.
        iteration p cmd eis proc c st = Stop r st' \<Longrightarrow> P (c # rest) st r st'"
    and Continue: "\<And>c rest st st1 res st'.
        iteration p cmd eis proc c st = Continue st1 \<Longrightarrow>
        for_count p cmd eis proc rest st1 = (res, st') \<Longrightarrow>
        P rest st1 res st' \<Longrightarrow> P (c # rest) st res st'"
  shows "P ks st res st'"
  using run
proof (induction ks arbitrary: st)
  case Nil
  then show ?case using Unbound [of st] Exhausted [of st]
    by (auto simp: for_count_Nil split: option.splits)
next
  case (Cons c rest)
  show ?case
  proof (cases "iteration p cmd eis proc c st")
    case (Stop r s)
    with Cons.prems have "(r, s) = (res, st')" by (simp add: for_count_Cons)
    with Stop assms(4) show ?thesis by blast
  next
    case (Continue st1)
    with Cons.prems have "for_count p cmd eis proc rest st1 = (res, st')"
      by (simp add: for_count_Cons)
    with Continue Cons.IH assms(5) show ?thesis by blast
  qed
qed

lemma for_count_calls:
  assumes "for_count p cmd eis proc ks st = (res, st')"
  shows "\<exists>new. calls st' = calls st @ new \<and> length new \<le> length ks
           \<and> (ks \<noteq> [] \<and> write_error (world st) p (program st) = None \<longrightarrow> new \<noteq> [])
           \<and> maxIterations st' = maxIterations st"
  using assms
proof (induction ks st res st' rule: for_count_induct)
  case (Unbound st)
  show ?case by simp
next
  case (Exhausted st c)
  show ?case by (simp add: print_console_simps)
next
  case (Stop c rest st r st')
  from iteration_Stop [OF Stop] show ?case
    by (auto simp: after_call_simps after_write_error_simps print_console_simps)
next
  case (Continue c rest st st1 res st')
  from iteration_Continue [OF Continue(1)] Continue(3) show ?case
    by (auto simp: after_call_simps)
qed

text \<open>Splitting the calls of a run that went on after its first iteration.\<close>

lemma Continue_calls:
  assumes "iteration p cmd eis proc c st = Continue st1"
    and "for_count p cmd eis proc rest st1 = (res, st')"
    and "calls st' = calls st @ new"
  obtains new' where "new = this_call p cmd proc st # new'" "calls st' = calls st1 @ new'"
proof -
  from for_count_calls [OF assms(2)] obtain new' where
    n: "calls st' = calls st1 @ new'"
    by blast
  from iteration_Continue [OF assms(1)] have "calls st1 = calls st @ [this_call p cmd proc st]"
    by (auto simp: after_call_simps)
  with n(1) assms(3) have "new = this_call p cmd proc st # new'" by simp
  with n show ?thesis using that by blast
qed

text \<open>A run that stops in its first iteration made one call, or none if the write raised.\<close>

lemma Stop_calls:
  assumes "iteration p cmd eis proc c st = Stop r st'"
    and "calls st' = calls st @ new"
  shows "(new = [this_call p cmd proc st] \<and> write_error (world st) p (program st) = None)
       \<or> (new = [] \<and> (\<exists>e. r = Inl e) \<and> write_error (world st) p (program st) \<noteq> None)"
  using iteration_Stop [OF assms(1)] assms(2)
  by (auto simp: after_call_simps after_write_error_simps print_console_simps)

lemma this_call_verdict:
  "is_fixed_point p eis (this_call p cmd proc st) \<longleftrightarrow>
     (\<exists>result. fst (proc cmd (fed_world p st)) = Inr result \<and> program st = selected eis result)"
  "differs p eis (this_call p cmd proc st) \<longleftrightarrow>
     (\<exists>result. fst (proc cmd (fed_world p st)) = Inr result \<and> program st \<noteq> selected eis result)"
  "failed (this_call p cmd proc st) \<longleftrightarrow>
     (\<exists>e. fst (proc cmd (fed_world p st)) = Inl e \<and> is_Exception e)"
  by (auto simp: is_fixed_point_def differs_def failed_def call_output_def this_call_simps
      split: sum.splits)

lemma this_call_output:
  "fst (proc cmd (fed_world p st)) = Inr result \<Longrightarrow>
     call_output eis (this_call p cmd proc st) = Some (selected eis result)"
  by (simp add: call_output_def this_call_simps)

lemma for_count_fed:
  assumes "for_count p cmd eis proc ks st = (res, st')"
  shows "calls st' = calls st @ new \<Longrightarrow> fed_in_turn p cmd eis (program st) new"
  using assms
proof (induction ks st res st' arbitrary: new rule: for_count_induct)
  case (Unbound st)
  then show ?case by simp
next
  case (Exhausted st c)
  then show ?case by (simp add: print_console_simps)
next
  case (Stop c rest st r st')
  from Stop_calls [OF Stop(1) Stop(2)] show ?case
    by (auto simp: this_call_simps)
next
  case (Continue c rest st st1 res st')
  from Continue_calls [OF Continue(1) Continue(2) Continue(4)] obtain new' where
    n: "new = this_call p cmd proc st # new'" "calls st' = calls st1 @ new'" by blast
  from iteration_Continue [OF Continue(1)] obtain result where
    r: "call_result (this_call p cmd proc st) = Inr result" "program st \<noteq> selected eis result"
      "st1 = (after_call p cmd proc c st)\<lparr>program := selected eis result\<rparr>" by blast
  from r(3) have "program st1 = selected eis result" by simp
  with Continue(3) [OF n(2)] have "fed_in_turn p cmd eis (selected eis result) new'" by simp
  with r(1,2) n(1) show ?case
    by (auto simp: this_call_simps call_output_def)
qed

lemma for_count_failed:
  assumes "for_count p cmd eis proc ks st = (res, st')"
  shows "calls st' = calls st @ new \<Longrightarrow> i < length new \<Longrightarrow> failed (new ! i) \<Longrightarrow>
         Suc i = length new \<and> res = Inr False \<and> count st' = Some (ks ! i)
         \<and> console st' = console st @ error_line cmd
         \<and> files (call_world (new ! i)) p = Some (program st' @ newline)"
  using assms
proof (induction ks st res st' arbitrary: new i rule: for_count_induct)
  case (Unbound st)
  then show ?case by simp
next
  case (Exhausted st c)
  then show ?case by (simp add: print_console_simps)
next
  case (Stop c rest st r st')
  from Stop_calls [OF Stop(1) Stop(2)] Stop(3) have n: "new = [this_call p cmd proc st]"
    and w: "write_error (world st) p (program st) = None"
    by auto
  with Stop(3) have i: "i = 0" by simp
  with n Stop(4) have "failed (this_call p cmd proc st)" by simp
  with iteration_Stop [OF Stop(1)] n w i show ?case
    by (auto simp: failed_def this_call_simps after_call_simps print_console_simps)
next
  case (Continue c rest st st1 res st')
  from Continue_calls [OF Continue(1) Continue(2) Continue(4)] obtain new' where
    n: "new = this_call p cmd proc st # new'" "calls st' = calls st1 @ new'" by blast
  from iteration_Continue [OF Continue(1)] obtain result where
    r: "call_result (this_call p cmd proc st) = Inr result"
      "st1 = (after_call p cmd proc c st)\<lparr>program := selected eis result\<rparr>" by blast
  from r(1) have nf: "\<not> failed (this_call p cmd proc st)" by (simp add: failed_def)
  with n(1) Continue(6) obtain j where j: "i = Suc j" by (cases i) auto
  with n(1) Continue(5,6) have "j < length new'" "failed (new' ! j)" by auto
  from Continue(3) [OF n(2) this] have ih: "length new' = Suc j" "res = Inr False"
    "count st' = Some (rest ! j)" "console st' = console st1 @ error_line cmd"
    "files (call_world (new' ! j)) p = Some (program st' @ newline)" by simp_all
  from r(2) have "console st1 = console st" by (simp add: after_call_simps)
  with ih show ?case unfolding j n(1) by simp
qed

lemma for_count_True_iff:
  assumes "for_count p cmd eis proc ks st = (res, st')"
  shows "calls st' = calls st @ new \<Longrightarrow>
         (res = Inr True \<longleftrightarrow> new \<noteq> [] \<and> is_fixed_point p eis (last new))"
  using assms
proof (induction ks st res st' arbitrary: new rule: for_count_induct)
  case (Unbound st)
  then show ?case by simp
next
  case (Exhausted st c)
  then show ?case by (simp add: print_console_simps)
next
  case (Stop c rest st r st')
  from Stop_calls [OF Stop(1) Stop(2)] iteration_Stop [OF Stop(1)] show ?case
    by (auto simp: this_call_verdict this_call_simps)
next
  case (Continue c rest st st1 res st')
  from Continue_calls [OF Continue(1) Continue(2) Continue(4)] obtain new' where
    n: "new = this_call p cmd proc st # new'" "calls st' = calls st1 @ new'" by blast
  from iteration_Continue [OF Continue(1)]
  have nf: "\<not> is_fixed_point p eis (this_call p cmd proc st)"
    by (auto simp: this_call_verdict this_call_simps)
  from Continue(3) [OF n(2)] nf n(1) show ?case by auto
qed

lemma for_count_True:
  assumes "for_count p cmd eis proc ks st = (res, st')"
  shows "calls st' = calls st @ new \<Longrightarrow> res = Inr True \<Longrightarrow>
         new \<noteq> [] \<and> call_output eis (last new) = Some (program st')
         \<and> count st' = Some (ks ! (length new - 1))
         \<and> console st' = console st @ converged_line p (ks ! (length new - 1)) (program st')"
  using assms
proof (induction ks st res st' arbitrary: new rule: for_count_induct)
  case (Unbound st)
  then show ?case by simp
next
  case (Exhausted st c)
  then show ?case by simp
next
  case (Stop c rest st r st')
  from Stop_calls [OF Stop(1) Stop(2)] Stop(3) have n: "new = [this_call p cmd proc st]"
    and w: "write_error (world st) p (program st) = None"
    by auto
  with iteration_Stop [OF Stop(1)] Stop(3) show ?case
    by (auto simp: this_call_simps after_call_simps print_console_simps call_output_def)
next
  case (Continue c rest st st1 res st')
  from Continue_calls [OF Continue(1) Continue(2) Continue(4)] obtain new' where
    n: "new = this_call p cmd proc st # new'" "calls st' = calls st1 @ new'" by blast
  from iteration_Continue [OF Continue(1)] obtain result where
    r: "st1 = (after_call p cmd proc c st)\<lparr>program := selected eis result\<rparr>" by blast
  from Continue(3) [OF n(2) Continue(5)] have ih: "new' \<noteq> []"
    "call_output eis (last new') = Some (program st')"
    "count st' = Some (rest ! (length new' - 1))"
    "console st' = console st1 @ converged_line p (rest ! (length new' - 1)) (program st')"
    by simp_all
  from ih(1) obtain k where k: "length new' = Suc k" by (cases new') auto
  from r have "console st1 = console st" by (simp add: after_call_simps)
  with k ih n(1) show ?case by simp
qed

lemma for_count_all_differ:
  assumes "for_count p cmd eis proc ks st = (res, st')"
  shows "calls st' = calls st @ new \<Longrightarrow> \<forall>c \<in> set new. differs p eis c \<Longrightarrow>
         length new = length ks \<Longrightarrow>
         count st' = (if ks = [] then count st else Some (last ks))
         \<and> (\<forall>k. count st' = Some k \<longrightarrow>
               res = Inr False \<and> console st' = console st @ exhausted_line k)"
  using assms
proof (induction ks st res st' arbitrary: new rule: for_count_induct)
  case (Unbound st)
  then show ?case by simp
next
  case (Exhausted st c)
  then show ?case by (simp add: print_console_simps)
next
  case (Stop c rest st r st')
  from Stop_calls [OF Stop(1) Stop(2)] Stop(4) have n: "new = [this_call p cmd proc st]"
    and w: "write_error (world st) p (program st) = None"
    by auto
  with Stop(3) have "differs p eis (this_call p cmd proc st)" by simp
  with iteration_Stop [OF Stop(1)] w show ?case
    by (auto simp: this_call_verdict this_call_simps)
next
  case (Continue c rest st st1 res st')
  from Continue_calls [OF Continue(1) Continue(2) Continue(4)] obtain new' where
    n: "new = this_call p cmd proc st # new'" "calls st' = calls st1 @ new'" by blast
  from iteration_Continue [OF Continue(1)] obtain result where
    r: "st1 = (after_call p cmd proc c st)\<lparr>program := selected eis result\<rparr>" by blast
  from n(1) Continue(5,6) have "\<forall>c \<in> set new'. differs p eis c" "length new' = length rest"
    by simp_all
  from Continue(3) [OF n(2) this] r n(1) show ?case
    by (auto simp: after_call_simps)
qed

text \<open>
  While the path stays writable no write raises, and a run whose calls all differ goes
  through all its counts.
\<close>

lemma writable_fed_world: "writable p (world st) \<Longrightarrow> writable p (fed_world q st)"
  by (simp add: writable_def fed_world_def)

lemma stays_writable_step:
  assumes "stays_writable p proc (world st)"
    and "iteration p cmd eis proc c st = Continue st1"
  shows "stays_writable p proc (world st1)"
proof -
  from iteration_Continue [OF assms(2)] have "world st1 = snd (proc cmd (fed_world p st))"
    by (auto simp: after_call_simps)
  with assms(1) writable_fed_world [of p st p] show ?thesis
    by (simp add: stays_writable_def)
qed

lemma for_count_writable:
  assumes "for_count p cmd eis proc ks st = (res, st')"
  shows "calls st' = calls st @ new \<Longrightarrow> \<forall>c \<in> set new. differs p eis c \<Longrightarrow>
         stays_writable p proc (world st) \<Longrightarrow> length new = length ks"
  using assms
proof (induction ks st res st' arbitrary: new rule: for_count_induct)
  case (Unbound st)
  then show ?case by simp
next
  case (Exhausted st c)
  then show ?case by (simp add: print_console_simps)
next
  case (Stop c rest st r st')
  from Stop(4) have w: "write_error (world st) p (program st) = None"
    by (simp add: stays_writable_def writable_def)
  with Stop_calls [OF Stop(1) Stop(2)] have n: "new = [this_call p cmd proc st]" by auto
  with Stop(3) have "differs p eis (this_call p cmd proc st)" by simp
  with iteration_Stop [OF Stop(1)] w show ?case
    by (auto simp: this_call_verdict this_call_simps)
next
  case (Continue c rest st st1 res st')
  from Continue_calls [OF Continue(1) Continue(2) Continue(4)] obtain new' where
    n: "new = this_call p cmd proc st # new'" "calls st' = calls st1 @ new'" by blast
  from n(1) Continue(5) have d: "\<forall>c \<in> set new'. differs p eis c" by simp
  from Continue(3) [OF n(2) d stays_writable_step [OF Continue(6) Continue(1)]] n(1)
  show ?case by simp
qed

section \<open>The whole function\<close>

lemma entry_simps:
  "calls (entry d sp st) = calls st"
  "console (entry d sp st) = console st @ d @ '': ''"
  "program (entry d sp st) = sp"
  "maxIterations (entry d sp st) = maxIterations st"
  "count (entry d sp st) = None"
  "world (entry d sp st) = world st"
  by (simp_all add: entry_def print_console_def)

lemma compileErrors_for_count:
  "compileErrors d p cmd eis sp proc st =
     for_count p cmd eis proc [1..maxIterations st] (entry d sp st)"
  by (simp add: compileErrors_def entry_def print_console_def Let_def)

lemma fed_world_entry:
  "fed_world p (entry d sp st) = (world st)\<lparr>files := (files (world st))(p \<mapsto> sp @ newline)\<rparr>"
  by (simp add: fed_world_def entry_simps)

lemma compileErrors_calls:
  assumes "compileErrors d p cmd eis sp proc st = (res, st')"
  shows "calls st' = calls st @ invocations st st'"
    and "int (length (invocations st st')) \<le> max 0 (maxIterations st)"
    and "1 \<le> maxIterations st \<Longrightarrow> write_error (world st) p sp = None \<Longrightarrow>
           invocations st st' \<noteq> []"
    and "maxIterations st' = maxIterations st"
proof -
  from assms have run: "for_count p cmd eis proc [1..maxIterations st] (entry d sp st) = (res, st')"
    by (simp add: compileErrors_for_count)
  from for_count_calls [OF run] obtain new where
    n: "calls st' = calls st @ new" "length new \<le> length [1..maxIterations st]"
      "[1..maxIterations st] \<noteq> [] \<and> write_error (world st) p sp = None \<longrightarrow> new \<noteq> []"
      "maxIterations st' = maxIterations st"
    by (auto simp: entry_simps)
  from n(1) have inv: "invocations st st' = new" by (simp add: invocations_def)
  show "calls st' = calls st @ invocations st st'" using n(1) inv by simp
  show "int (length (invocations st st')) \<le> max 0 (maxIterations st)" using n(2) inv by simp
  show "1 \<le> maxIterations st \<Longrightarrow> write_error (world st) p sp = None \<Longrightarrow>
      invocations st st' \<noteq> []" using n(3) inv by simp
  show "maxIterations st' = maxIterations st" using n(4) .
qed

lemma first_iteration:
  assumes "1 \<le> maxIterations st"
  shows "compileErrors d p cmd eis sp proc st =
     (case iteration p cmd eis proc 1 (entry d sp st) of
        Stop r st' \<Rightarrow> (r, st')
      | Continue st' \<Rightarrow> for_count p cmd eis proc [2..maxIterations st] st')"
  using assms upto_rec1 [of 1 "maxIterations st"]
  by (simp add: compileErrors_for_count for_count_Cons)

lemma last_upto_1: "1 \<le> m \<Longrightarrow> last [1..m] = m"
  using upto_rec2 [of 1 m] by simp

lemma compileErrors_run:
  assumes "compileErrors d p cmd eis sp proc st = (res, st')"
  shows "for_count p cmd eis proc [1..maxIterations st] (entry d sp st) = (res, st')"
    and "calls st' = calls (entry d sp st) @ invocations st st'"
  using assms compileErrors_calls(1) [OF assms]
  by (simp_all add: compileErrors_for_count entry_simps)

lemma fed_in_turn_nth:
  "fed_in_turn p cmd eis cand cs \<Longrightarrow> i < length cs \<Longrightarrow>
     call_args (cs ! i) = cmd
     \<and> (\<exists>c. (if i = 0 then c = cand else call_output eis (cs ! (i - 1)) = Some c)
            \<and> files (call_world (cs ! i)) p = Some (c @ newline))"
proof (induction cs arbitrary: cand i)
  case Nil
  then show ?case by simp
next
  case (Cons a cs)
  show ?case
  proof (cases i)
    case 0
    with Cons.prems show ?thesis by simp
  next
    case (Suc j)
    with Cons.prems have j: "j < length cs" "cs \<noteq> []" by auto
    with Cons.prems obtain out where out: "call_output eis a = Some out"
      "fed_in_turn p cmd eis out cs"
      by (auto split: option.splits)
    from Cons.IH [OF out(2) j(1)] out(1) Suc show ?thesis
      by (cases j) auto
  qed
qed

lemma for_count_program:
  assumes "for_count p cmd eis proc ks st = (res, st')"
  shows "calls st' = calls st @ new \<Longrightarrow>
         program st' = program st \<or> (\<exists>c \<in> set new. call_output eis c = Some (program st'))"
  using assms
proof (induction ks st res st' arbitrary: new rule: for_count_induct)
  case (Unbound st)
  then show ?case by simp
next
  case (Exhausted st c)
  then show ?case by (simp add: print_console_simps)
next
  case (Stop c rest st r st')
  from iteration_Stop [OF Stop(1)] show ?case
    by (auto simp: after_call_simps after_write_error_simps print_console_simps)
next
  case (Continue c rest st st1 res st')
  from Continue_calls [OF Continue(1) Continue(2) Continue(4)] obtain new' where
    n: "new = this_call p cmd proc st # new'" "calls st' = calls st1 @ new'" by blast
  from iteration_Continue [OF Continue(1)] obtain result where
    r: "call_result (this_call p cmd proc st) = Inr result"
      "st1 = (after_call p cmd proc c st)\<lparr>program := selected eis result\<rparr>" by blast
  from r have "call_output eis (this_call p cmd proc st) = Some (program st1)"
    by (simp add: call_output_def)
  with Continue(3) [OF n(2)] n(1) show ?case by auto
qed

subsection \<open>Runs that differ in exit statuses only\<close>

lemma observable_fed_world:
  "observable st = observable st2 \<Longrightarrow> fed_world p st = fed_world p st2"
  by (simp add: observable_def fed_world_def)

lemma observable_after_call:
  assumes "snd (proc cmd (fed_world p st)) = snd (proc2 cmd (fed_world p st))"
    and "streams (fst (proc cmd (fed_world p st))) = streams (fst (proc2 cmd (fed_world p st)))"
    and "observable st = observable st2"
  shows "observable (after_call p cmd proc c st) = observable (after_call p cmd proc2 c st2)"
  using assms observable_fed_world [OF assms(3), of p]
  by (simp add: observable_def after_call_def this_call_def)

lemma observable_after_write_error:
  "observable st = observable st2 \<Longrightarrow>
   observable (after_write_error p left c st) = observable (after_write_error p left c st2)"
  by (simp add: observable_def after_write_error_def)

lemma observable_print:
  "observable s = observable s2 \<Longrightarrow>
   observable (print_console x y s) = observable (print_console x y s2)"
  by (simp add: observable_def print_console_def)

lemma observable_program:
  "observable s = observable s2 \<Longrightarrow>
   observable (s\<lparr>program := x\<rparr>) = observable (s2\<lparr>program := x\<rparr>)"
  by (simp add: observable_def)

lemma streams_cases:
  assumes "streams r = streams r2"
  shows "(\<exists>e. r = Inl e \<and> r2 = Inl e)
       \<or> (\<exists>a b. r = Inr a \<and> r2 = Inr b \<and> selected eis a = selected eis b)"
  using assms by (auto simp: streams_def selected_def split: sum.splits)

lemma iteration_observable:
  assumes "\<forall>args w. snd (proc args w) = snd (proc2 args w)
             \<and> streams (fst (proc args w)) = streams (fst (proc2 args w))"
    and "observable st = observable st2"
  shows "case iteration p cmd eis proc c st of
           Stop r s \<Rightarrow>
             (case iteration p cmd eis proc2 c st2 of
                Stop r2 s2 \<Rightarrow> r = r2 \<and> observable s = observable s2
              | Continue s2 \<Rightarrow> False)
         | Continue s \<Rightarrow>
             (case iteration p cmd eis proc2 c st2 of
                Stop r2 s2 \<Rightarrow> False
              | Continue s2 \<Rightarrow> observable s = observable s2)"
proof -
  have w: "fed_world p st2 = fed_world p st" using observable_fed_world [OF assms(2)] by simp
  from assms(2) have pr: "program st2 = program st" by (simp add: observable_def)
  from assms(1) have a: "snd (proc cmd (fed_world p st)) = snd (proc2 cmd (fed_world p st))"
    "streams (fst (proc cmd (fed_world p st))) = streams (fst (proc2 cmd (fed_world p st)))"
    by simp_all
  note ac = observable_after_call [where proc = proc and ?proc2.0 = proc2 and c = c, OF a assms(2)]
  from assms(2) have wo: "world st2 = world st" by (simp add: observable_def)
  show ?thesis
  proof (cases "write_error (world st) p (program st)")
    case (Some a)
    obtain e left where a: "a = (e, left)" by (cases a)
    with Some have "iteration p cmd eis proc c st = Stop (Inl e) (after_write_error p left c st)"
      "iteration p cmd eis proc2 c st2 = Stop (Inl e) (after_write_error p left c st2)"
      by (simp_all add: iteration_def wo pr)
    with observable_after_write_error [OF assms(2)] show ?thesis by simp
  next
    case None
    from streams_cases [OF a(2), of eis] show ?thesis
    proof (elim disjE exE conjE)
      fix e assume r: "fst (proc cmd (fed_world p st)) = Inl e"
        "fst (proc2 cmd (fed_world p st)) = Inl e"
      have i1: "iteration p cmd eis proc c st =
          (if is_Exception e
           then Stop (Inr False) (print_console (error_line cmd) [] (after_call p cmd proc c st))
           else Stop (Inl e) (after_call p cmd proc c st))"
        by (simp add: iteration_def None r(1))
      have i2: "iteration p cmd eis proc2 c st2 =
          (if is_Exception e
           then Stop (Inr False) (print_console (error_line cmd) [] (after_call p cmd proc2 c st2))
           else Stop (Inl e) (after_call p cmd proc2 c st2))"
        by (simp add: iteration_def None wo pr w r(2))
      show ?thesis unfolding i1 i2 using ac observable_print [OF ac]
        by (cases "is_Exception e") simp_all
    next
      fix a b assume r: "fst (proc cmd (fed_world p st)) = Inr a"
        "fst (proc2 cmd (fed_world p st)) = Inr b" "selected eis a = selected eis b"
      have i1: "iteration p cmd eis proc c st =
          (if program st = selected eis a
           then Stop (Inr True)
                  (print_console (converged_line p c (program st)) [] (after_call p cmd proc c st))
           else Continue ((after_call p cmd proc c st)\<lparr>program := selected eis a\<rparr>))"
        by (simp add: iteration_def None r(1))
      have i2: "iteration p cmd eis proc2 c st2 =
          (if program st = selected eis a
           then Stop (Inr True)
                  (print_console (converged_line p c (program st)) [] (after_call p cmd proc2 c st2))
           else Continue ((after_call p cmd proc2 c st2)\<lparr>program := selected eis a\<rparr>))"
        by (simp add: iteration_def None wo w pr r(2) r(3) [symmetric])
      show ?thesis unfolding i1 i2 using observable_print [OF ac] observable_program [OF ac]
        by (cases "program st = selected eis a") simp_all
    qed
  qed
qed

lemma for_count_observable:
  assumes "\<forall>args w. snd (proc args w) = snd (proc2 args w)
             \<and> streams (fst (proc args w)) = streams (fst (proc2 args w))"
  shows "observable st = observable st2 \<Longrightarrow>
         fst (for_count p cmd eis proc ks st) = fst (for_count p cmd eis proc2 ks st2)
         \<and> observable (snd (for_count p cmd eis proc ks st))
             = observable (snd (for_count p cmd eis proc2 ks st2))"
proof (induction ks arbitrary: st st2)
  case Nil
  then have "count st = count st2" by (simp add: observable_def)
  with Nil observable_print [OF Nil] show ?case
    by (simp add: for_count_Nil split: option.splits)
next
  case (Cons c rest)
  note it = iteration_observable [OF assms Cons.prems, of p cmd eis c]
  show ?case
  proof (cases "iteration p cmd eis proc c st")
    case (Stop r s)
    with it obtain s2 where "iteration p cmd eis proc2 c st2 = Stop r s2"
      "observable s = observable s2"
      by (cases "iteration p cmd eis proc2 c st2") auto
    with Stop show ?thesis by (simp add: for_count_Cons)
  next
    case (Continue s)
    with it obtain s2 where s2: "iteration p cmd eis proc2 c st2 = Continue s2"
      "observable s = observable s2"
      by (cases "iteration p cmd eis proc2 c st2") auto
    from Cons.IH [OF s2(2)] Continue s2(1) show ?thesis by (simp add: for_count_Cons)
  qed
qed

subsection \<open>The echoing process\<close>

lemma echo_iteration:
  "write_error (world st) p (program st) = None \<Longrightarrow>
   iteration p cmd False (echo_file p) c st =
     Continue ((after_call p cmd (echo_file p) c st)\<lparr>program := program st @ newline\<rparr>)"
  by (simp add: iteration_def echo_file_def this_call_simps selected_def newline_def)

lemma echo_writable:
  "writable p (world st) \<Longrightarrow>
   writable p (world ((after_call p cmd (echo_file p) c st)\<lparr>program := x\<rparr>))"
  by (simp add: after_call_simps echo_file_def writable_def fed_world_def
      split: option.splits)

lemma echo_for_count:
  "for_count p cmd False (echo_file p) ks st = (res, st') \<Longrightarrow> writable p (world st) \<Longrightarrow>
     program st' = program st @ concat (replicate (length ks) newline)
     \<and> length (calls st') = length (calls st) + length ks
     \<and> count st' = (if ks = [] then count st else Some (last ks))
     \<and> (\<forall>k. count st' = Some k \<longrightarrow>
           res = Inr False \<and> console st' = console st @ exhausted_line k)"
proof (induction ks arbitrary: st)
  case Nil
  then show ?case by (auto simp: for_count_Nil print_console_simps split: option.splits)
next
  case (Cons c rest)
  let ?st1 = "(after_call p cmd (echo_file p) c st)\<lparr>program := program st @ newline\<rparr>"
  from Cons.prems(2) have w: "write_error (world st) p (program st) = None"
    by (simp add: writable_def)
  with Cons.prems have "for_count p cmd False (echo_file p) rest ?st1 = (res, st')"
    by (simp add: for_count_Cons echo_iteration)
  from Cons.IH [OF this echo_writable [OF Cons.prems(2)]] show ?case
    by (auto simp: after_call_simps)
qed

lemma echo_calls:
  "for_count p cmd False (echo_file p) ks st = (res, st') \<Longrightarrow> writable p (world st) \<Longrightarrow>
     \<forall>c \<in> set (invocations st st'). call_output False c = files (call_world c) p"
proof (induction ks arbitrary: st)
  case Nil
  then show ?case
    by (auto simp: for_count_Nil print_console_simps invocations_def split: option.splits)
next
  case (Cons c rest)
  let ?st1 = "(after_call p cmd (echo_file p) c st)\<lparr>program := program st @ newline\<rparr>"
  from Cons.prems(2) have w: "write_error (world st) p (program st) = None"
    by (simp add: writable_def)
  with Cons.prems have run: "for_count p cmd False (echo_file p) rest ?st1 = (res, st')"
    by (simp add: for_count_Cons echo_iteration)
  from for_count_calls [OF run] obtain new where n: "calls st' = calls ?st1 @ new" by blast
  then have i1: "invocations ?st1 st' = new"
    and i: "invocations st st' = this_call p cmd (echo_file p) st # new"
    by (simp_all add: invocations_def after_call_simps)
  have "call_output False (this_call p cmd (echo_file p) st)
      = files (call_world (this_call p cmd (echo_file p) st)) p"
    by (simp add: call_output_def this_call_simps echo_file_def selected_def)
  with Cons.IH [OF run echo_writable [OF Cons.prems(2)]] i1 i show ?case by simp
qed

section \<open>The claims\<close>

text \<open>
  A path in a directory that does not exist: \<open>open\<close> raises in the first iteration, the
  exception leaves the function, and no process has been run.
\<close>

theorem no_directory_makes_no_call:
  "1 \<le> maxIterations (script_state no_directory_world)
   \<and> length (invocations (script_state no_directory_world)
        (snd (compileErrors ''Python'' ''nodir/prog.py'' [''py'', ''nodir/prog.py''] True ''x''
           (emit_constant 1 ''syntax error on line 1'') (script_state no_directory_world)))) = 0
   \<and> fst (compileErrors ''Python'' ''nodir/prog.py'' [''py'', ''nodir/prog.py''] True ''x''
        (emit_constant 1 ''syntax error on line 1'') (script_state no_directory_world))
       = Inl FileNotFoundError"
  by code_simp

text \<open>
  C3, as the code has it: with \<open>maxIterations\<close> at least 1, whatever the starting text and
  the transformer, one search calls the transformer at most \<open>maxIterations\<close> times. It
  calls it at least once if the first write of the file succeeds; if that write raises,
  the exception leaves the function and the transformer is not called at all.
\<close>

theorem compileErrors_invocations_bounded:
  assumes "1 \<le> maxIterations st"
    and "compileErrors d p cmd eis sp proc st = (res, st')"
  shows "int (length (invocations st st')) \<le> maxIterations st
       \<and> (write_error (world st) p sp = None \<longrightarrow> 1 \<le> length (invocations st st'))
       \<and> (\<forall>e left. write_error (world st) p sp = Some (e, left) \<longrightarrow>
             invocations st st' = [] \<and> res = Inl e)"
proof -
  from compileErrors_calls(2) [OF assms(2)] assms(1)
  have a: "int (length (invocations st st')) \<le> maxIterations st" by simp
  have b: "1 \<le> length (invocations st st')" if "write_error (world st) p sp = None"
    using compileErrors_calls(3) [OF assms(2) assms(1) that]
    by (cases "invocations st st'") simp_all
  have c: "invocations st st' = [] \<and> res = Inl e"
    if "write_error (world st) p sp = Some (e, left)" for e left
  proof -
    from that have "iteration p cmd eis proc 1 (entry d sp st)
        = Stop (Inl e) (after_write_error p left 1 (entry d sp st))"
      by (simp add: iteration_def entry_simps)
    with first_iteration [OF assms(1), of d p cmd eis sp proc] assms(2)
    have "res = Inl e" "st' = after_write_error p left 1 (entry d sp st)" by simp_all
    then show ?thesis by (simp add: invocations_def after_write_error_simps entry_simps)
  qed
  from a b c show ?thesis by blast
qed

theorem compileErrors_invocations_bounded_witness:
  "1 \<le> maxIterations (script_state empty_world)
   \<and> write_error (world (script_state empty_world)) ''prog.py'' ''x'' = None
   \<and> 1 \<le> length (invocations (script_state empty_world) (snd python_run))
   \<and> int (length (invocations (script_state empty_world) (snd python_run)))
       \<le> maxIterations (script_state empty_world)"
proof -
  have h: "1 \<le> maxIterations (script_state empty_world :: unit state)"
    by (simp add: script_state_def)
  have w: "write_error (world (script_state empty_world)) ''prog.py'' ''x'' = None"
    by (simp add: script_state_def empty_world_def)
  have r: "compileErrors ''Python'' ''prog.py'' [''py'', ''prog.py''] True ''x''
      (emit_constant 1 ''syntax error on line 1'') (script_state empty_world)
      = (fst python_run, snd python_run)"
    by (simp add: python_run_def)
  from h w compileErrors_invocations_bounded [OF h r] show ?thesis by blast
qed

text \<open>
  C5: if the file can be written and the transformer, run on the file holding the
  starting text, completes with a captured output equal to the starting text, the search
  returns \<open>True\<close> at count 1, after exactly one call, the text unchanged, and reports one
  iteration.
\<close>

theorem identity_converges_at_1:
  assumes "1 \<le> maxIterations st"
    and "write_error (world st) p sp = None"
    and "fst (proc cmd ((world st)\<lparr>files := (files (world st))(p \<mapsto> sp @ newline)\<rparr>)) = Inr result"
    and "selected eis result = sp"
    and "compileErrors d p cmd eis sp proc st = (res, st')"
  shows "res = Inr True \<and> program st' = sp \<and> count st' = Some 1
       \<and> length (invocations st st') = 1
       \<and> console st' = console st @ d @ '': '' @ converged_line p 1 sp"
proof -
  from assms(2,3,4) have "iteration p cmd eis proc 1 (entry d sp st) =
      Stop (Inr True) (print_console (converged_line p 1 sp) []
        (after_call p cmd proc 1 (entry d sp st)))"
    by (simp add: iteration_def fed_world_entry entry_simps)
  with first_iteration [OF assms(1), of d p cmd eis sp proc] assms(5)
  have "res = Inr True"
    "st' = print_console (converged_line p 1 sp) [] (after_call p cmd proc 1 (entry d sp st))"
    by simp_all
  then show ?thesis
    by (simp add: print_console_simps after_call_simps entry_simps invocations_def)
qed

theorem identity_converges_at_1_witness:
  "1 \<le> maxIterations (script_state empty_world)
   \<and> write_error (world (script_state empty_world)) ''prog0.py'' [] = None
   \<and> fst (emit_constant 0 [] [''py'', ''prog0.py'']
        ((world (script_state empty_world))
           \<lparr>files := (files (world (script_state empty_world)))(''prog0.py'' \<mapsto> [] @ newline)\<rparr>))
       = Inr \<lparr>returncode = 0, stdout = [], stderr = []\<rparr>
   \<and> selected True \<lparr>returncode = 0, stdout = [], stderr = []\<rparr> = []
   \<and> fst (compileErrors ''Python (trivial)'' ''prog0.py'' [''py'', ''prog0.py''] True []
         (emit_constant 0 []) (script_state empty_world)) = Inr True
   \<and> program (snd (compileErrors ''Python (trivial)'' ''prog0.py'' [''py'', ''prog0.py''] True []
         (emit_constant 0 []) (script_state empty_world))) = []
   \<and> count (snd (compileErrors ''Python (trivial)'' ''prog0.py'' [''py'', ''prog0.py''] True []
         (emit_constant 0 []) (script_state empty_world))) = Some 1
   \<and> length (invocations (script_state empty_world)
        (snd (compileErrors ''Python (trivial)'' ''prog0.py'' [''py'', ''prog0.py''] True []
         (emit_constant 0 []) (script_state empty_world)))) = 1"
proof -
  have h1: "1 \<le> maxIterations (script_state empty_world)" by (simp add: script_state_def)
  have w: "write_error (world (script_state empty_world)) ''prog0.py'' [] = None"
    by (simp add: script_state_def empty_world_def)
  have h2: "fst (emit_constant 0 [] [''py'', ''prog0.py'']
        ((world (script_state empty_world))
           \<lparr>files := (files (world (script_state empty_world)))(''prog0.py'' \<mapsto> [] @ newline)\<rparr>))
       = Inr \<lparr>returncode = 0, stdout = [], stderr = []\<rparr>"
    by (simp add: emit_constant_def)
  have h3: "selected True \<lparr>returncode = 0, stdout = [], stderr = []\<rparr> = []"
    by (simp add: selected_def)
  from h1 w h2 h3
    identity_converges_at_1 [where st = "script_state empty_world" and sp = "[]"
      and proc = "emit_constant 0 []" and cmd = "[''py'', ''prog0.py'']" and p = "''prog0.py''"
      and eis = True and d = "''Python (trivial)''", OF h1 w h2 h3 surjective_pairing]
  show ?thesis by blast
qed

text \<open>
  C4: starting from \<open>x\<close>, with a file that stays writable and a transformer that completes
  every time with the literal \<open>syntax error on line 1\<close> on the selected stream, whatever it
  is given, the search returns \<open>True\<close> at count 2 with that literal as its text: the first
  comparison fails, the second one, of the literal with itself, succeeds. (The budget must
  allow a second iteration; the script's is 10.)
\<close>

theorem constant_diagnostic_converges_at_2:
  assumes "2 \<le> maxIterations st"
    and "stays_writable p proc (world st)"
    and "\<forall>w. \<exists>result. fst (proc cmd w) = Inr result
           \<and> selected eis result = ''syntax error on line 1''"
    and "compileErrors d p cmd eis ''x'' proc st = (res, st')"
  shows "res = Inr True \<and> program st' = ''syntax error on line 1'' \<and> count st' = Some 2
       \<and> length (invocations st st') = 2
       \<and> console st' = console st @ d @ '': '' @ converged_line p 2 ''syntax error on line 1''"
proof -
  let ?L = "''syntax error on line 1''"
  let ?e = "entry d ''x'' st"
  let ?st1 = "(after_call p cmd proc 1 ?e)\<lparr>program := ?L\<rparr>"
  from assms(2) have sw: "stays_writable p proc (world ?e)" by (simp add: entry_simps)
  then have w1: "write_error (world ?e) p (program ?e) = None"
    by (simp add: stays_writable_def writable_def)
  from assms(3) obtain r1 where r1: "fst (proc cmd (fed_world p ?e)) = Inr r1"
    "selected eis r1 = ?L" by blast
  with w1 have i1: "iteration p cmd eis proc 1 ?e = Continue ?st1"
    by (simp add: iteration_def entry_simps)
  from stays_writable_step [OF sw i1] have w2: "write_error (world ?st1) p (program ?st1) = None"
    by (simp add: stays_writable_def writable_def)
  from assms(3) obtain r2 where r2: "fst (proc cmd (fed_world p ?st1)) = Inr r2"
    "selected eis r2 = ?L" by blast
  with w2 have i2: "iteration p cmd eis proc 2 ?st1 =
      Stop (Inr True) (print_console (converged_line p 2 ?L) [] (after_call p cmd proc 2 ?st1))"
    by (simp add: iteration_def)
  from assms(1) have "1 \<le> maxIterations st" by simp
  from first_iteration [OF this, of d p cmd eis "''x''" proc] i1 assms(4)
  have "for_count p cmd eis proc [2..maxIterations st] ?st1 = (res, st')" by simp
  with upto_rec1 [of 2 "maxIterations st"] assms(1) i2
  have "res = Inr True"
    "st' = print_console (converged_line p 2 ?L) [] (after_call p cmd proc 2 ?st1)"
    by (simp_all add: for_count_Cons)
  then show ?thesis
    by (simp add: print_console_simps after_call_simps entry_simps invocations_def)
qed

theorem constant_diagnostic_converges_at_2_witness:
  "2 \<le> maxIterations (script_state empty_world)
   \<and> stays_writable ''prog.py'' (emit_constant 1 ''syntax error on line 1'')
        (world (script_state empty_world))
   \<and> fst python_run = Inr True
   \<and> program (snd python_run) = ''syntax error on line 1''
   \<and> count (snd python_run) = Some 2
   \<and> length (invocations (script_state empty_world) (snd python_run)) = 2"
proof -
  have h1: "2 \<le> maxIterations (script_state empty_world :: unit state)"
    by (simp add: script_state_def)
  have w: "stays_writable ''prog.py'' (emit_constant 1 ''syntax error on line 1'')
      (world (script_state empty_world))"
    by (simp add: stays_writable_def writable_def emit_constant_def script_state_def
        empty_world_def)
  have h2: "\<forall>w :: unit world. \<exists>result.
      fst (emit_constant 1 ''syntax error on line 1'' [''py'', ''prog.py''] w) = Inr result
      \<and> selected True result = ''syntax error on line 1''"
    by (simp add: emit_constant_def selected_def)
  have r: "compileErrors ''Python'' ''prog.py'' [''py'', ''prog.py''] True ''x''
      (emit_constant 1 ''syntax error on line 1'') (script_state empty_world)
      = (fst python_run, snd python_run)"
    by (simp add: python_run_def)
  from h1 w constant_diagnostic_converges_at_2 [OF h1 w h2 r] show ?thesis by blast
qed

text \<open>
  C7: the test of an iteration is equality of the two strings as they are. In any state of
  the loop, when the file is written and the transformer completes with \<open>result\<close>, the loop
  returns \<open>True\<close> after this one call exactly when the candidate equals the selected
  output. Nothing is trimmed: the candidate \<open>x\<close> followed by a newline, against the output
  \<open>x\<close>, does not converge on that iteration, as the instance after the theorem evaluates.
\<close>

theorem convergence_is_exact_equality:
  assumes "write_error (world st) p (program st) = None"
    and "fst (proc cmd ((world st)\<lparr>files := (files (world st))(p \<mapsto> program st @ newline)\<rparr>))
             = Inr result"
    and "for_count p cmd eis proc (k # rest) st = (res, st')"
  shows "(res = Inr True \<and> length (invocations st st') = 1)
           \<longleftrightarrow> program st = selected eis result"
proof (cases "program st = selected eis result")
  case True
  with assms(1,2) have "iteration p cmd eis proc k st =
      Stop (Inr True) (print_console (converged_line p k (program st)) []
        (after_call p cmd proc k st))"
    by (simp add: iteration_def fed_world_def)
  with assms(3) have "res = Inr True"
    "st' = print_console (converged_line p k (program st)) [] (after_call p cmd proc k st)"
    by (simp_all add: for_count_Cons)
  with True show ?thesis
    by (simp add: invocations_def print_console_simps after_call_simps)
next
  case False
  let ?st1 = "(after_call p cmd proc k st)\<lparr>program := selected eis result\<rparr>"
  from False assms(1,2) have it: "iteration p cmd eis proc k st = Continue ?st1"
    by (simp add: iteration_def fed_world_def)
  with assms(3) have run: "for_count p cmd eis proc rest ?st1 = (res, st')"
    by (simp add: for_count_Cons)
  from for_count_calls [OF run] obtain new where
    n: "calls st' = calls ?st1 @ new" by blast
  then have inv: "invocations st st' = this_call p cmd proc st # new"
    by (simp add: invocations_def after_call_simps)
  have "\<not> (res = Inr True \<and> new = [])"
    using for_count_True [OF run n] by blast
  with inv False show ?thesis by auto
qed

theorem convergence_is_exact_equality_witness:
  "write_error (world trailing_newline_state) ''prog.py'' (program trailing_newline_state) = None
   \<and> fst (emit_constant 1 ''x'' [''py'', ''prog.py'']
      ((world trailing_newline_state)
         \<lparr>files := (files (world trailing_newline_state))
            (''prog.py'' \<mapsto> program trailing_newline_state @ newline)\<rparr>))
     = Inr \<lparr>returncode = 1, stdout = ''x'', stderr = ''x''\<rparr>
   \<and> program trailing_newline_state = ''x'' @ newline
   \<and> selected True \<lparr>returncode = 1, stdout = ''x'', stderr = ''x''\<rparr> = ''x''
   \<and> \<not> (fst (for_count ''prog.py'' [''py'', ''prog.py''] True (emit_constant 1 ''x'')
              (1 # [2..10]) trailing_newline_state) = Inr True
         \<and> length (invocations trailing_newline_state
              (snd (for_count ''prog.py'' [''py'', ''prog.py''] True (emit_constant 1 ''x'')
                 (1 # [2..10]) trailing_newline_state))) = 1)"
proof -
  have w: "write_error (world trailing_newline_state) ''prog.py''
      (program trailing_newline_state) = None"
    by (simp add: trailing_newline_state_def entry_simps script_state_def empty_world_def)
  have h1: "fst (emit_constant 1 ''x'' [''py'', ''prog.py'']
      ((world trailing_newline_state)
         \<lparr>files := (files (world trailing_newline_state))
            (''prog.py'' \<mapsto> program trailing_newline_state @ newline)\<rparr>))
     = Inr \<lparr>returncode = 1, stdout = ''x'', stderr = ''x''\<rparr>"
    by (simp add: emit_constant_def)
  have h2: "program trailing_newline_state = ''x'' @ newline"
    by (simp add: trailing_newline_state_def entry_simps)
  have h3: "selected True \<lparr>returncode = 1, stdout = ''x'', stderr = ''x''\<rparr> = ''x''"
    by (simp add: selected_def)
  have ne: "program trailing_newline_state
      \<noteq> selected True \<lparr>returncode = 1, stdout = ''x'', stderr = ''x''\<rparr>"
    by (simp add: h2 h3 newline_def)
  from convergence_is_exact_equality [where eis = True and k = 1 and rest = "[2..10]"
      and proc = "emit_constant 1 ''x''" and cmd = "[''py'', ''prog.py'']" and p = "''prog.py''"
      and st = trailing_newline_state
      and result = "\<lparr>returncode = 1, stdout = ''x'', stderr = ''x''\<rparr>",
      OF w h1 surjective_pairing] ne
  have "\<not> (fst (for_count ''prog.py'' [''py'', ''prog.py''] True (emit_constant 1 ''x'')
              (1 # [2..10]) trailing_newline_state) = Inr True
         \<and> length (invocations trailing_newline_state
              (snd (for_count ''prog.py'' [''py'', ''prog.py''] True (emit_constant 1 ''x'')
                 (1 # [2..10]) trailing_newline_state))) = 1)"
    by blast
  with w h1 h2 h3 show ?thesis by blast
qed

text \<open>
  C2: if the file stays writable and every call of a run completed with a selected output
  other than the candidate it was given (the file held the candidate and a newline), then,
  with a budget of at least 1, the run made exactly \<open>maxIterations\<close> calls, returned
  \<open>False\<close> with \<open>count\<close> at \<open>maxIterations\<close>, and reported that it did not converge after
  \<open>maxIterations\<close> iterations.
\<close>

theorem never_equal_exhausts_budget:
  assumes "1 \<le> maxIterations st"
    and "stays_writable p proc (world st)"
    and "compileErrors d p cmd eis sp proc st = (res, st')"
    and "\<forall>c \<in> set (invocations st st'). differs p eis c"
  shows "res = Inr False
       \<and> int (length (invocations st st')) = maxIterations st
       \<and> count st' = Some (maxIterations st)
       \<and> console st' = console st @ d @ '': '' @ ''did not converge after ''
           @ str_int (maxIterations st) @ '' iterations'' @ newline"
proof -
  note run = compileErrors_run [OF assms(3)]
  from assms(1) have ne: "[1..maxIterations st] \<noteq> []" by simp
  from assms(2) have sw: "stays_writable p proc (world (entry d sp st))"
    by (simp add: entry_simps)
  from for_count_writable [OF run assms(4) sw]
  have len: "length (invocations st st') = length [1..maxIterations st]" .
  from for_count_all_differ [OF run assms(4) len] ne last_upto_1 [OF assms(1)] assms(1) len
  show ?thesis by (simp add: entry_simps exhausted_line_def)
qed

theorem never_equal_exhausts_budget_witness:
  "1 \<le> maxIterations (script_state empty_world)
   \<and> stays_writable ''prog0.py'' (echo_file ''prog0.py'') (world (script_state empty_world))
   \<and> list_all (differs ''prog0.py'' False) (invocations (script_state empty_world) (snd echo_run))
   \<and> fst echo_run = Inr False
   \<and> int (length (invocations (script_state empty_world) (snd echo_run))) = 10
   \<and> count (snd echo_run) = Some 10"
proof -
  have h1: "1 \<le> maxIterations (script_state empty_world :: unit state)"
    by (simp add: script_state_def)
  have m: "maxIterations (script_state empty_world :: unit state) = 10"
    by (simp add: script_state_def)
  have w: "stays_writable ''prog0.py'' (echo_file ''prog0.py'')
      (world (script_state empty_world))"
    by (simp add: stays_writable_def writable_def echo_file_def script_state_def
        empty_world_def split: option.splits)
  have h3: "\<forall>c \<in> set (invocations (script_state empty_world) (snd echo_run)).
      differs ''prog0.py'' False c"
    by code_simp
  have r: "compileErrors ''Echo'' ''prog0.py'' [''cat'', ''prog0.py''] False []
      (echo_file ''prog0.py'') (script_state empty_world) = (fst echo_run, snd echo_run)"
    by (simp add: echo_run_def)
  from never_equal_exhausts_budget [OF h1 w r h3] h1 w h3 m show ?thesis
    by (simp add: list_all_iff)
qed

text \<open>
  C6: if the call of iteration \<open>i + 1\<close> raised an exception that \<open>except Exception\<close>
  catches (the command could not be started), that call is the last one of the run: the
  function returns \<open>False\<close> with \<open>count\<close> at \<open>i + 1\<close>, prints the error line with the
  command, and its text is still the candidate that was in the file for that call, which
  was compared with nothing.
\<close>

theorem failed_invocation_stops:
  assumes "compileErrors d p cmd eis sp proc st = (res, st')"
    and "i < length (invocations st st')"
    and "call_result (invocations st st' ! i) = Inl e"
    and "is_Exception e"
  shows "Suc i = length (invocations st st')
       \<and> res = Inr False
       \<and> count st' = Some (int i + 1)
       \<and> console st' = console st @ d @ '': '' @ ''Error: Unable to compile. Command: ''
           @ join '' '' cmd @ newline
       \<and> files (call_world (invocations st st' ! i)) p = Some (program st' @ newline)"
proof -
  note run = compileErrors_run [OF assms(1)]
  from assms(3,4) have f: "failed (invocations st st' ! i)" by (simp add: failed_def)
  from compileErrors_calls(2) [OF assms(1)] assms(2)
  have "1 + int i \<le> maxIterations st" by simp
  then have "[1..maxIterations st] ! i = int i + 1" by simp
  with for_count_failed [OF run assms(2) f] show ?thesis
    by (simp add: entry_simps error_line_def)
qed

theorem failed_invocation_stops_witness:
  "call_result (invocations (script_state empty_world) (snd missing_run) ! 0)
     = Inl FileNotFoundError
   \<and> is_Exception FileNotFoundError
   \<and> length (invocations (script_state empty_world) (snd missing_run)) = 1
   \<and> fst missing_run = Inr False
   \<and> count (snd missing_run) = Some 1
   \<and> console (snd missing_run)
       = ''Perl: Error: Unable to compile. Command: perl prog.pl'' @ newline
   \<and> files (call_world (invocations (script_state empty_world) (snd missing_run) ! 0))
         ''prog.pl'' = Some (program (snd missing_run) @ newline)"
proof -
  have h2: "0 < length (invocations (script_state empty_world) (snd missing_run))"
    by code_simp
  have h3: "call_result (invocations (script_state empty_world) (snd missing_run) ! 0)
      = Inl FileNotFoundError"
    by code_simp
  have h4: "is_Exception FileNotFoundError" by simp
  have r: "compileErrors ''Perl'' ''prog.pl'' [''perl'', ''prog.pl''] True ''1x''
      not_found (script_state empty_world) = (fst missing_run, snd missing_run)"
    by (simp add: missing_run_def)
  have c: "console (script_state empty_world :: unit state) = []"
    by (simp add: script_state_def)
  from failed_invocation_stops [OF r h2 h3 h4] h3 c show ?thesis by simp
qed

text \<open>
  C8: in every run, each call of the transformer finds in the file exactly the candidate
  of its iteration followed by one newline, where the candidate of the first call is the
  starting text and the candidate of every later call is the selected captured output of
  the call before it; the text the function ends with is the starting text or one of the
  captured outputs. Nothing in the function reads the file.
\<close>

theorem file_holds_candidate_at_each_call:
  assumes "compileErrors d p cmd eis sp proc st = (res, st')"
    and "i < length (invocations st st')"
  shows "call_args (invocations st st' ! i) = cmd
       \<and> (\<exists>cand. (if i = 0 then cand = sp
                   else call_output eis (invocations st st' ! (i - 1)) = Some cand)
             \<and> files (call_world (invocations st st' ! i)) p = Some (cand @ newline))
       \<and> (program st' = sp
            \<or> (\<exists>c \<in> set (invocations st st'). call_output eis c = Some (program st')))"
proof -
  note run = compileErrors_run [OF assms(1)]
  from for_count_fed [OF run] have "fed_in_turn p cmd eis sp (invocations st st')"
    by (simp add: entry_simps)
  from fed_in_turn_nth [OF this assms(2)] for_count_program [OF run]
  show ?thesis by (simp add: entry_simps)
qed

theorem file_holds_candidate_at_each_call_witness:
  "1 < length (invocations (script_state empty_world) (snd python_run))
   \<and> call_args (invocations (script_state empty_world) (snd python_run) ! 1)
       = [''py'', ''prog.py'']
   \<and> call_output True (invocations (script_state empty_world) (snd python_run) ! 0)
       = Some ''syntax error on line 1''
   \<and> files (call_world (invocations (script_state empty_world) (snd python_run) ! 1)) ''prog.py''
       = Some (''syntax error on line 1'' @ newline)"
proof -
  have h2: "1 < length (invocations (script_state empty_world) (snd python_run))"
    by code_simp
  have o: "call_output True (invocations (script_state empty_world) (snd python_run) ! 0)
      = Some ''syntax error on line 1''"
    by code_simp
  have r: "compileErrors ''Python'' ''prog.py'' [''py'', ''prog.py''] True ''x''
      (emit_constant 1 ''syntax error on line 1'') (script_state empty_world)
      = (fst python_run, snd python_run)"
    by (simp add: python_run_def)
  from file_holds_candidate_at_each_call [OF r h2] h2 o show ?thesis by simp
qed

text \<open>
  C10: the function returns a truth value and nothing else. It returns \<open>True\<close> exactly
  when its last call was a fixed point (the output equal to the candidate in the file). It
  returns \<open>False\<close> when its last call could not be started, and also when all
  \<open>maxIterations\<close> calls were made and each gave an output other than its candidate; the
  two differ in the line printed only.
\<close>

theorem returns_only_a_boolean:
  assumes "1 \<le> maxIterations st"
    and "compileErrors d p cmd eis sp proc st = (res, st')"
  shows "(res = Inr True \<longleftrightarrow>
            invocations st st' \<noteq> [] \<and> is_fixed_point p eis (last (invocations st st')))
       \<and> (invocations st st' \<noteq> [] \<and> failed (last (invocations st st')) \<longrightarrow>
            res = Inr False
            \<and> console st' = console st @ d @ '': '' @ error_line cmd)
       \<and> (int (length (invocations st st')) = maxIterations st
            \<and> (\<forall>c \<in> set (invocations st st'). differs p eis c) \<longrightarrow>
            res = Inr False
            \<and> console st' = console st @ d @ '': '' @ exhausted_line (maxIterations st))"
proof -
  note run = compileErrors_run [OF assms(2)]
  from assms(1) have ks: "[1..maxIterations st] \<noteq> []" by simp
  have a: "res = Inr True \<longleftrightarrow>
      invocations st st' \<noteq> [] \<and> is_fixed_point p eis (last (invocations st st'))"
    using for_count_True_iff [OF run] by simp
  have b: "res = Inr False \<and> console st' = console st @ d @ '': '' @ error_line cmd"
    if "invocations st st' \<noteq> []" "failed (last (invocations st st'))"
  proof -
    from that(1) have "length (invocations st st') - 1 < length (invocations st st')" by simp
    from for_count_failed [OF run this] that show ?thesis
      by (simp add: last_conv_nth entry_simps)
  qed
  have c: "res = Inr False
      \<and> console st' = console st @ d @ '': '' @ exhausted_line (maxIterations st)"
    if "int (length (invocations st st')) = maxIterations st"
      "\<forall>c \<in> set (invocations st st'). differs p eis c"
  proof -
    from that(1) assms(1) have "length (invocations st st') = length [1..maxIterations st]"
      by simp
    from for_count_all_differ [OF run that(2) this] ks last_upto_1 [OF assms(1)]
    show ?thesis by (simp add: entry_simps)
  qed
  from a b c show ?thesis by blast
qed

theorem returns_only_a_boolean_witness:
  "1 \<le> maxIterations (script_state empty_world)
   \<and> invocations (script_state empty_world) (snd missing_run) \<noteq> []
   \<and> failed (last (invocations (script_state empty_world) (snd missing_run)))
   \<and> fst missing_run = Inr False
   \<and> \<not> is_fixed_point ''prog.pl'' True
         (last (invocations (script_state empty_world) (snd missing_run)))
   \<and> int (length (invocations (script_state empty_world) (snd echo_run)))
       = maxIterations (script_state empty_world)
   \<and> list_all (differs ''prog0.py'' False) (invocations (script_state empty_world) (snd echo_run))
   \<and> fst echo_run = Inr False"
proof -
  have h1: "1 \<le> maxIterations (script_state empty_world :: unit state)"
    by (simp add: script_state_def)
  have n: "invocations (script_state empty_world) (snd missing_run) \<noteq> []"
    by code_simp
  have f: "failed (last (invocations (script_state empty_world) (snd missing_run)))"
    by code_simp
  have l: "int (length (invocations (script_state empty_world) (snd echo_run)))
      = maxIterations (script_state empty_world)"
    by code_simp
  have d: "\<forall>c \<in> set (invocations (script_state empty_world) (snd echo_run)).
      differs ''prog0.py'' False c"
    by code_simp
  have r1: "compileErrors ''Perl'' ''prog.pl'' [''perl'', ''prog.pl''] True ''1x''
      not_found (script_state empty_world) = (fst missing_run, snd missing_run)"
    by (simp add: missing_run_def)
  have r2: "compileErrors ''Echo'' ''prog0.py'' [''cat'', ''prog0.py''] False []
      (echo_file ''prog0.py'') (script_state empty_world) = (fst echo_run, snd echo_run)"
    by (simp add: echo_run_def)
  from returns_only_a_boolean [OF h1 r1] n f
  have a: "fst missing_run = Inr False"
    "\<not> is_fixed_point ''prog.pl'' True
        (last (invocations (script_state empty_world) (snd missing_run)))"
    by auto
  from returns_only_a_boolean [OF h1 r2] l d have b: "fst echo_run = Inr False" by blast
  from h1 n f a l b d show ?thesis by (simp add: list_all_iff)
qed

text \<open>
  C9: two transformers that change the world alike and give the same captured streams
  (or raise the same exception) on every input, whatever their exit statuses, give the
  same run: the same returned value, count, text, console and world, and as many calls.
  The exit status is read nowhere.
\<close>

theorem exit_status_is_ignored:
  assumes "\<forall>args w. snd (proc args w) = snd (proc2 args w)
             \<and> streams (fst (proc args w)) = streams (fst (proc2 args w))"
    and "compileErrors d p cmd eis sp proc st = (res, st')"
    and "compileErrors d p cmd eis sp proc2 st = (res2, st2)"
  shows "res = res2 \<and> count st' = count st2 \<and> program st' = program st2
       \<and> console st' = console st2 \<and> world st' = world st2
       \<and> length (invocations st st') = length (invocations st st2)"
proof -
  from for_count_observable [OF assms(1) refl, of p cmd eis "[1..maxIterations st]" "entry d sp st"]
    assms(2,3)
  have "res = res2" and o: "observable st' = observable st2"
    by (simp_all add: compileErrors_for_count)
  from o have "length (calls st') = length (calls st2)"
    unfolding observable_def using map_eq_imp_length_eq by blast
  with o \<open>res = res2\<close> show ?thesis
    by (simp add: observable_def invocations_def)
qed

theorem exit_status_is_ignored_witness:
  "streams (fst (emit_constant 0 ''syntax error on line 1'' [''py'', ''prog.py''] empty_world))
     = streams (fst (emit_constant 1 ''syntax error on line 1'' [''py'', ''prog.py''] empty_world))
   \<and> fst (emit_constant 0 ''syntax error on line 1'' [''py'', ''prog.py''] empty_world)
       \<noteq> fst (emit_constant 1 ''syntax error on line 1'' [''py'', ''prog.py''] empty_world)
   \<and> fst (compileErrors ''Python'' ''prog.py'' [''py'', ''prog.py''] True ''x''
         (emit_constant 0 ''syntax error on line 1'') (script_state empty_world))
       = fst python_run
   \<and> count (snd (compileErrors ''Python'' ''prog.py'' [''py'', ''prog.py''] True ''x''
         (emit_constant 0 ''syntax error on line 1'') (script_state empty_world)))
       = count (snd python_run)
   \<and> program (snd (compileErrors ''Python'' ''prog.py'' [''py'', ''prog.py''] True ''x''
         (emit_constant 0 ''syntax error on line 1'') (script_state empty_world)))
       = program (snd python_run)"
proof -
  have h1: "\<forall>args (w :: unit world).
      snd (emit_constant 0 ''syntax error on line 1'' args w)
        = snd (emit_constant 1 ''syntax error on line 1'' args w)
      \<and> streams (fst (emit_constant 0 ''syntax error on line 1'' args w))
        = streams (fst (emit_constant 1 ''syntax error on line 1'' args w))"
    by (simp add: emit_constant_def streams_def)
  have ne: "fst (emit_constant 0 ''syntax error on line 1'' [''py'', ''prog.py''] empty_world)
       \<noteq> fst (emit_constant 1 ''syntax error on line 1'' [''py'', ''prog.py''] empty_world)"
    by (simp add: emit_constant_def)
  have r: "compileErrors ''Python'' ''prog.py'' [''py'', ''prog.py''] True ''x''
      (emit_constant 1 ''syntax error on line 1'') (script_state empty_world)
      = (fst python_run, snd python_run)"
    by (simp add: python_run_def)
  from exit_status_is_ignored [OF h1 surjective_pairing r] h1 ne show ?thesis by simp
qed

text \<open>
  The transformer that echoes the file, started on the empty text: the first comparison
  is of the empty text with a single newline, and the run does not stop there.
\<close>

theorem echo_does_not_converge_at_1:
  "\<not> (fst (compileErrors ''Python (trivial)'' ''prog0.py'' [''cat'', ''prog0.py''] False []
           (echo_file ''prog0.py'') (script_state empty_world)) = Inr True
      \<and> count (snd (compileErrors ''Python (trivial)'' ''prog0.py'' [''cat'', ''prog0.py''] False
           [] (echo_file ''prog0.py'') (script_state empty_world))) = Some 1
      \<and> program (snd (compileErrors ''Python (trivial)'' ''prog0.py'' [''cat'', ''prog0.py'']
           False [] (echo_file ''prog0.py'') (script_state empty_world))) = [])"
  by code_simp

text \<open>
  C1, as the code has it: started on the empty text with a file that can be written and a
  transformer that echoes the file to its standard output (exit status 0,
  \<open>errorsInStderr\<close> false), the search does not converge. The file holds the candidate and
  one newline, every captured output is the file byte for byte, and so one newline longer
  than the candidate it is compared with. With a budget of at least 1 the run makes
  \<open>maxIterations\<close> calls, ends with a text of \<open>maxIterations\<close> newlines, returns \<open>False\<close>
  and reports that it did not converge.
\<close>

theorem echo_exhausts_budget:
  assumes "1 \<le> maxIterations st"
    and "writable p (world st)"
    and "compileErrors d p cmd False [] (echo_file p) st = (res, st')"
  shows "res = Inr False
       \<and> int (length (invocations st st')) = maxIterations st
       \<and> count st' = Some (maxIterations st)
       \<and> program st' = concat (replicate (nat (maxIterations st)) newline)
       \<and> console st' = console st @ d @ '': '' @ ''did not converge after ''
           @ str_int (maxIterations st) @ '' iterations'' @ newline
       \<and> (\<forall>c \<in> set (invocations st st'). call_output False c = files (call_world c) p)"
proof -
  note run = compileErrors_run [OF assms(3)]
  from assms(1) have ne: "[1..maxIterations st] \<noteq> []" by simp
  from assms(2) have w: "writable p (world (entry d [] st))" by (simp add: entry_simps)
  from echo_calls [OF run(1) w]
  have c: "\<forall>c \<in> set (invocations st st'). call_output False c = files (call_world c) p"
    by (simp add: invocations_def entry_simps)
  from echo_for_count [OF run(1) w] ne last_upto_1 [OF assms(1)] assms(1)
  have "res = Inr False" "length (calls st') = length (calls st) + nat (maxIterations st)"
    "count st' = Some (maxIterations st)"
    "program st' = concat (replicate (nat (maxIterations st)) newline)"
    "console st' = console st @ d @ '': '' @ exhausted_line (maxIterations st)"
    by (simp_all add: entry_simps)
  with c assms(1) show ?thesis
    by (simp add: invocations_def exhausted_line_def)
qed

theorem echo_exhausts_budget_witness:
  "1 \<le> maxIterations (script_state empty_world)
   \<and> writable ''prog0.py'' (world (script_state empty_world))
   \<and> fst echo_run = Inr False
   \<and> int (length (invocations (script_state empty_world) (snd echo_run))) = 10
   \<and> count (snd echo_run) = Some 10
   \<and> program (snd echo_run) = concat (replicate 10 newline)
   \<and> console (snd echo_run) = ''Echo: did not converge after 10 iterations'' @ newline"
proof -
  have h1: "1 \<le> maxIterations (script_state empty_world :: unit state)"
    by (simp add: script_state_def)
  have w: "writable ''prog0.py'' (world (script_state empty_world))"
    by (simp add: writable_def script_state_def empty_world_def)
  have m: "maxIterations (script_state empty_world :: unit state) = 10"
    "console (script_state empty_world :: unit state) = []"
    by (simp_all add: script_state_def)
  have s: "str_int 10 = ''10''" by code_simp
  have r: "compileErrors ''Echo'' ''prog0.py'' [''cat'', ''prog0.py''] False []
      (echo_file ''prog0.py'') (script_state empty_world) = (fst echo_run, snd echo_run)"
    by (simp add: echo_run_def)
  from echo_exhausts_budget [OF h1 w r] h1 w m s show ?thesis by simp
qed

end
